theory Spec2Isabelle
  imports Main "HOL-Library.Word"
begin

section \<open>JavaScript values used by the parser\<close>

text \<open>
  A Node \<open>Buffer\<close> is a sequence of bytes; a JavaScript string is a sequence of 16-bit
  UTF-16 code units. The string functions of the parser (\<open>indexOf\<close>, \<open>replace\<close>,
  \<open>split\<close>, \<open>trim\<close>, \<open>match\<close>) all work on code units.
\<close>

type_synonym byte = "8 word"
type_synonym code_unit = "16 word"
type_synonym jsstring = "code_unit list"

definition js :: "string \<Rightarrow> jsstring" where
  \<comment> \<open>the JavaScript string literal with the given ASCII characters\<close>
  "js s = map of_char s"

definition ascii :: "string \<Rightarrow> byte list" where
  \<comment> \<open>the bytes a serial adapter sends for the given ASCII characters\<close>
  "ascii s = map of_char s"

definition LF :: code_unit where "LF = 0x0A"
definition CR :: code_unit where "CR = 0x0D"
definition SP :: code_unit where "SP = 0x20"
definition BACKSLASH :: code_unit where "BACKSLASH = 0x5C"
definition LOWER_R :: code_unit where "LOWER_R = 0x72"
definition GT :: code_unit where "GT = 0x3E"

subsection \<open>\<open>Buffer.prototype.toString('utf8')\<close>\<close>

text \<open>
  \<open>data.toString('utf8')\<close> (parser.js line 28) decodes the bytes of ONE chunk as UTF-8.
  Every ill-formed or truncated sequence becomes the replacement character U+FFFD, and a
  code point above U+FFFF becomes a surrogate pair. The decoder keeps no state between
  two calls: a multi-byte sequence cut by a chunk boundary is ill-formed on both sides.
\<close>

datatype utf8_lead = Unit nat | Start nat nat nat nat | Bad

definition utf8_lead :: "nat \<Rightarrow> utf8_lead" where
  \<comment> \<open>a byte read while no sequence is open: \<open>Start needed code_point lower upper\<close>\<close>
  "utf8_lead b =
     (if b \<le> 0x7F then Unit b
      else if 0xC2 \<le> b \<and> b \<le> 0xDF then Start 1 (b mod 32) 0x80 0xBF
      else if 0xE0 \<le> b \<and> b \<le> 0xEF then
        Start 2 (b mod 16) (if b = 0xE0 then 0xA0 else 0x80) (if b = 0xED then 0x9F else 0xBF)
      else if 0xF0 \<le> b \<and> b \<le> 0xF4 then
        Start 3 (b mod 8) (if b = 0xF0 then 0x90 else 0x80) (if b = 0xF4 then 0x8F else 0xBF)
      else Bad)"

definition utf16 :: "nat \<Rightarrow> jsstring" where
  "utf16 cp =
     (if cp < 0x10000 then [of_nat cp]
      else [of_nat (0xD800 + (cp - 0x10000) div 0x400),
            of_nat (0xDC00 + (cp - 0x10000) mod 0x400)])"

fun utf8_decode :: "nat \<Rightarrow> nat \<Rightarrow> nat \<Rightarrow> nat \<Rightarrow> byte list \<Rightarrow> jsstring" where
  "utf8_decode needed cp lower upper [] = (if needed = 0 then [] else [0xFFFD])"
| "utf8_decode needed cp lower upper (b # bs) =
     (if needed \<noteq> 0 \<and> lower \<le> unat b \<and> unat b \<le> upper then
        (let cp' = cp * 64 + unat b mod 64 in
           if needed = 1 then utf16 cp' @ utf8_decode 0 0 0x80 0xBF bs
           else utf8_decode (needed - 1) cp' 0x80 0xBF bs)
      else
        (if needed \<noteq> 0 then [0xFFFD] else []) @
        (case utf8_lead (unat b) of
           Unit u \<Rightarrow> of_nat u # utf8_decode 0 0 0x80 0xBF bs
         | Start needed' cp' lower' upper' \<Rightarrow> utf8_decode needed' cp' lower' upper' bs
         | Bad \<Rightarrow> 0xFFFD # utf8_decode 0 0 0x80 0xBF bs))"

definition toString :: "byte list \<Rightarrow> jsstring" where
  "toString data = utf8_decode 0 0 0x80 0xBF data"

subsection \<open>String and array methods\<close>

text \<open>\<open>s.indexOf(pat)\<close>: the index of the first occurrence, or -1.\<close>

fun indexOf_from :: "nat \<Rightarrow> jsstring \<Rightarrow> jsstring \<Rightarrow> int" where
  "indexOf_from k [] pat = (if pat = [] then int k else - 1)"
| "indexOf_from k (c # s) pat =
     (if take (length pat) (c # s) = pat then int k else indexOf_from (Suc k) s pat)"

definition indexOf :: "jsstring \<Rightarrow> jsstring \<Rightarrow> int" where
  "indexOf s pat = indexOf_from 0 s pat"

text \<open>\<open>s.replace(pat, rep)\<close> with a string pattern: only the first occurrence is replaced.\<close>

definition replace_first :: "jsstring \<Rightarrow> jsstring \<Rightarrow> jsstring \<Rightarrow> jsstring" where
  "replace_first s pat rep =
     (let i = indexOf s pat
      in if i = - 1 then s else take (nat i) s @ rep @ drop (nat i + length pat) s)"

text \<open>
  \<open>s.replace(/pat/g, rep)\<close> for a regular expression that is a literal, non-empty
  sequence of characters: every occurrence, scanning left to right without overlap.
\<close>

fun replace_all :: "jsstring \<Rightarrow> jsstring \<Rightarrow> jsstring \<Rightarrow> jsstring" where
  "replace_all pat rep [] = []"
| "replace_all pat rep (c # s) =
     (if pat \<noteq> [] \<and> take (length pat) (c # s) = pat
      then rep @ replace_all pat rep (drop (length pat - 1) s)
      else c # replace_all pat rep s)"

text \<open>\<open>s.split(/c/g)\<close> for a single character: n separators give n + 1 segments.\<close>

fun split_from :: "code_unit \<Rightarrow> jsstring \<Rightarrow> jsstring \<Rightarrow> jsstring list" where
  "split_from sep cur [] = [cur]"
| "split_from sep cur (c # s) =
     (if c = sep then cur # split_from sep [] s else split_from sep (cur @ [c]) s)"

definition split :: "code_unit \<Rightarrow> jsstring \<Rightarrow> jsstring list" where
  "split sep s = split_from sep [] s"

text \<open>
  \<open>s.trim()\<close> removes white space and line terminators from both ends: TAB, LF, VT, FF,
  CR, SPACE, NBSP, the Unicode space separators, LS, PS and the byte order mark.
\<close>

definition js_whitespace :: "code_unit \<Rightarrow> bool" where
  "js_whitespace c \<longleftrightarrow>
     c = 0x09 \<or> c = 0x0A \<or> c = 0x0B \<or> c = 0x0C \<or> c = 0x0D \<or> c = 0x20 \<or> c = 0xA0 \<or>
     c = 0x1680 \<or> (0x2000 \<le> c \<and> c \<le> 0x200A) \<or> c = 0x2028 \<or> c = 0x2029 \<or>
     c = 0x202F \<or> c = 0x205F \<or> c = 0x3000 \<or> c = 0xFEFF"

definition trim :: "jsstring \<Rightarrow> jsstring" where
  "trim s = rev (dropWhile js_whitespace (rev (dropWhile js_whitespace s)))"

text \<open>\<open>xs.join(sep)\<close>, \<open>xs[i]\<close> (\<open>undefined\<close> out of range) and \<open>xs.slice(start, end)\<close>.\<close>

fun join :: "jsstring \<Rightarrow> jsstring list \<Rightarrow> jsstring" where
  "join sep [] = []"
| "join sep [x] = x"
| "join sep (x # y # xs) = x @ sep @ join sep (y # xs)"

definition at :: "'a list \<Rightarrow> nat \<Rightarrow> 'a option" where
  "at xs i = (if i < length xs then Some (xs ! i) else None)"

definition slice :: "'a list \<Rightarrow> int \<Rightarrow> int \<Rightarrow> 'a list" where
  "slice xs start end =
     (let len = int (length xs);
          k = (if start < 0 then max (len + start) 0 else min start len);
          final = (if end < 0 then max (len + end) 0 else min end len)
      in take (nat (final - k)) (drop (nat k) xs))"

subsection \<open>The two regular expressions\<close>

text \<open>
  \<open>/^[0-9A-F]+$/\<close>: one character of the class, then either the end of the input or
  the rest of the repetition. Without the \<open>m\<close> flag \<open>$\<close> matches at the end only.
\<close>

definition hex_class :: "code_unit \<Rightarrow> bool" where
  "hex_class c \<longleftrightarrow> (0x30 \<le> c \<and> c \<le> 0x39) \<or> (0x41 \<le> c \<and> c \<le> 0x46)"

fun match_hex_line :: "jsstring \<Rightarrow> bool" where
  "match_hex_line [] = False"
| "match_hex_line [c] = hex_class c"
| "match_hex_line (c # d # s) = (hex_class c \<and> match_hex_line (d # s))"

text \<open>
  \<open>s.match(/.{1,2}/g)\<close>: all matches, left to right. The dot matches any code unit but
  the line terminators LF, CR, LS and PS; the quantifier is greedy; where no match
  starts, the scan moves one position on. \<open>match\<close> returns \<open>null\<close> when nothing matched.
\<close>

definition line_terminator :: "code_unit \<Rightarrow> bool" where
  "line_terminator c \<longleftrightarrow> c = 0x0A \<or> c = 0x0D \<or> c = 0x2028 \<or> c = 0x2029"

fun match_pairs :: "jsstring \<Rightarrow> jsstring list" where
  "match_pairs [] = []"
| "match_pairs [c] = (if line_terminator c then [] else [[c]])"
| "match_pairs (c # d # s) =
     (if line_terminator c then match_pairs (d # s)
      else if line_terminator d then [c] # match_pairs s
      else [c, d] # match_pairs s)"

section \<open>The constants and the registry the parser reads\<close>

text \<open>
  Modelled from the spec: \<open>lib/constants\<close> is not among the sources. The prompt
  delimiter is the single character that ends an adapter response (\<open>>\<close> in the comment
  of parser.js line 39 and in every example), and the supported response mode is
  \<open>41\<close>, the prefix of a "current data" reply.
\<close>

definition OBD_OUTPUT_DELIMETER :: jsstring where
  "OBD_OUTPUT_DELIMETER = js ''>''"

definition MODE_01 :: jsstring where
  "MODE_01 = js ''41''"

text \<open>
  A descriptor of the registry: the number of bytes it declares and its converter, which
  returns a value or an error object. The registry itself (\<open>pids.getBy('pid', code)\<close>)
  is a parameter of the model; it is asked with \<open>byteGroups[1]\<close>, which is
  \<open>undefined\<close> when the response has a single byte group.
\<close>

record ('e, 'v) pid_info =
  byteCount :: nat
  convertBytes :: "jsstring list \<Rightarrow> 'e + 'v"

type_synonym ('e, 'v) registry = "jsstring option \<Rightarrow> ('e, 'v) pid_info option"

section \<open>The parser (lib/parser.js)\<close>

text \<open>
  The \<open>VError\<close> objects of the parser, by what their message is formatted from: the byte
  groups joined by a space and the mode, the pid without a converter, or the error
  object a converter returned.
\<close>

datatype 'e verror =
    UnsupportedMode jsstring "jsstring option"
  | NoConverter "jsstring option"
  | ConversionFailed 'e

datatype js_exception = TypeError

record ('e, 'v) parse_result =
  ts :: nat
  "value" :: "'v option"
  raw :: jsstring
  byteGroups :: "jsstring list option"
  error :: "'e verror option"

datatype ('e, 'v) event = LineBreak | Data "('e, 'v) parse_result"

record parser_state =
  buffer :: jsstring

definition hasPrompt :: "jsstring \<Rightarrow> bool" where
  "hasPrompt data \<longleftrightarrow> indexOf data OBD_OUTPUT_DELIMETER \<noteq> - 1"

definition extractOutputStrings :: "jsstring \<Rightarrow> jsstring list" where
  "extractOutputStrings buf =
     (let cmds = split CR (replace_all [BACKSLASH, LOWER_R] [CR] (replace_all [LF] [] buf));
          cmds = map (\<lambda>c. trim (replace_all [SP] [] (replace_first c OBD_OUTPUT_DELIMETER []))) cmds;
          cmds = filter (\<lambda>c. c \<noteq> []) cmds
      in cmds)"

definition isHex :: "jsstring \<Rightarrow> bool" where
  "isHex str = (if match_hex_line str then True else False)"

definition getByteGroupings :: "jsstring \<Rightarrow> jsstring list option" where
  "getByteGroupings str =
     (let found = match_pairs (replace_all [SP] [] str)
      in if found = [] then None else Some found)"

definition parseRealTime ::
  "('e, 'v) registry \<Rightarrow> jsstring list \<Rightarrow> 'e verror + 'v" where
  "parseRealTime pids groups =
     (case pids (at groups 1) of
        Some pidInfo \<Rightarrow>
          (case convertBytes pidInfo (slice groups 2 (int (byteCount pidInfo))) of
             Inl e \<Rightarrow> Inl (ConversionFailed e)
           | Inr v \<Rightarrow> Inr v)
      | None \<Rightarrow> Inl (NoConverter (at groups 1)))"

text \<open>
  \<open>now\<close> is the reading of \<open>Date.now()\<close>. Reading \<open>byteGroups[0]\<close> when \<open>match\<close>
  returned \<open>null\<close> raises a TypeError.
\<close>

definition parseObdString ::
  "nat \<Rightarrow> ('e, 'v) registry \<Rightarrow> jsstring \<Rightarrow> js_exception + ('e, 'v) parse_result" where
  "parseObdString now pids str =
     (let groups = getByteGroupings str;
          ret = \<lparr>ts = now, value = None, raw = str, byteGroups = groups, error = None\<rparr>
      in if \<not> isHex str then Inr ret
         else case groups of
           None \<Rightarrow> Inl TypeError
         | Some gs \<Rightarrow>
             if at gs 0 = Some MODE_01 then
               (case parseRealTime pids gs of
                  Inl e \<Rightarrow> Inr (ret\<lparr>error := Some e\<rparr>)
                | Inr v \<Rightarrow> Inr (ret\<lparr>value := Some v\<rparr>))
             else Inr (ret\<lparr>error := Some (UnsupportedMode (join (js '' '') gs) (at gs 0))\<rparr>))"

text \<open>
  The \<open>_.each\<close> loop of \<open>_transform\<close>: one \<open>data\<close> event per command string, the i-th
  one stamped with the i-th reading of the clock; an exception ends the loop.
\<close>

fun emit_each ::
  "(nat \<Rightarrow> nat) \<Rightarrow> nat \<Rightarrow> ('e, 'v) registry \<Rightarrow> jsstring list \<Rightarrow>
     ('e, 'v) event list \<times> js_exception option" where
  "emit_each clock i pids [] = ([], None)"
| "emit_each clock i pids (c # cs) =
     (case parseObdString (clock i) pids c of
        Inl x \<Rightarrow> ([], Some x)
      | Inr r \<Rightarrow> (case emit_each clock (Suc i) pids cs of (evs, x) \<Rightarrow> (Data r # evs, x)))"

definition flush :: "parser_state \<Rightarrow> parser_state" where
  "flush st = st\<lparr>buffer := []\<rparr>"

text \<open>
  \<open>_transform\<close>: the new state, the events emitted, and the exception that left the
  function, if any (then \<open>_flush\<close> was not reached).
\<close>

definition transform ::
  "(nat \<Rightarrow> nat) \<Rightarrow> ('e, 'v) registry \<Rightarrow> parser_state \<Rightarrow> byte list \<Rightarrow>
     parser_state \<times> ('e, 'v) event list \<times> js_exception option" where
  "transform clock pids st data =
     (let st1 = st\<lparr>buffer := buffer st @ toString data\<rparr>
      in if hasPrompt (buffer st1) then
           (case emit_each clock 0 pids (extractOutputStrings (buffer st1)) of
              (evs, Some x) \<Rightarrow> (st1, LineBreak # evs, Some x)
            | (evs, None) \<Rightarrow> (flush st1, LineBreak # evs, None))
         else (st1, [], None))"

definition initial :: parser_state where
  \<comment> \<open>the constructor: \<open>this._buffer = ''\<close>\<close>
  "initial = \<lparr>buffer = []\<rparr>"

text \<open>
  The stream hands the chunks written to it to \<open>_transform\<close> one after the other, each
  with its own clock; an exception ends the stream.
\<close>

fun write_chunks ::
  "('e, 'v) registry \<Rightarrow> parser_state \<Rightarrow> ((nat \<Rightarrow> nat) \<times> byte list) list \<Rightarrow>
     parser_state \<times> ('e, 'v) event list \<times> js_exception option" where
  "write_chunks pids st [] = (st, [], None)"
| "write_chunks pids st ((clock, data) # rest) =
     (case transform clock pids st data of
        (st', evs, Some x) \<Rightarrow> (st', evs, Some x)
      | (st', evs, None) \<Rightarrow>
          (case write_chunks pids st' rest of (st'', evs', x) \<Rightarrow> (st'', evs @ evs', x)))"

section \<open>The specification's words as definitions\<close>

text \<open>
  \<open>group_spec\<close> is the ByteGrouper of the specification: maximal runs of two
  characters taken left to right, the last run of length one when the length is odd.
\<close>

definition group_spec :: "jsstring \<Rightarrow> jsstring list" where
  "group_spec s = map (\<lambda>i. take 2 (drop (2 * i) s)) [0..<(length s + 1) div 2]"









text \<open>
  Two results are compared "timestamps aside": \<open>untimed\<close> sets the timestamp of a
  \<open>data\<close> event to 0.
\<close>

definition untimed :: "('e, 'v) event \<Rightarrow> ('e, 'v) event" where
  "untimed ev = (case ev of LineBreak \<Rightarrow> LineBreak | Data r \<Rightarrow> Data (r\<lparr>ts := 0\<rparr>))"

subsection \<open>Sample registries and clock\<close>

text \<open>
  A registry without descriptors, a registry whose single descriptor (pid \<open>0C\<close>,
  declared byte count 3) returns the byte groups it was called with, and a clock.
\<close>

definition no_pids :: "(unit, unit) registry" where
  "no_pids pid = None"

definition echo_pids :: "(unit, jsstring list) registry" where
  "echo_pids pid =
     (if pid = Some (js ''0C'') then Some \<lparr>byteCount = 3, convertBytes = Inr\<rparr> else None)"

definition tick :: "nat \<Rightarrow> nat" where
  "tick i = 1000 + i"

subsection \<open>An invariant of the UTF-8 decoder\<close>

text \<open>
  While a multi-byte sequence is open, the next byte must lie in \<open>[lower, upper]\<close>, a
  sub-range of \<open>80..BF\<close>, and the code point read so far is large enough and small
  enough for the finished code point to lie in \<open>80..1FFFFF\<close>.
\<close>

definition utf8_inv :: "nat \<Rightarrow> nat \<Rightarrow> nat \<Rightarrow> nat \<Rightarrow> bool" where
  "utf8_inv n cp lo hi \<longleftrightarrow>
     n = 0 \<or>
     (0x80 \<le> lo \<and> hi \<le> 0xBF \<and>
      (n = 1 \<and> 1 \<le> cp \<and> cp < 32768 \<or>
       n = 2 \<and> cp < 512 \<and> (1 \<le> cp \<or> 0x90 \<le> lo) \<or>
       n = 3 \<and> cp < 8 \<and> (1 \<le> cp \<or> 0x90 \<le> lo)))"

section \<open>Auxiliary facts\<close>

lemmas js_consts = js_def ascii_def LF_def CR_def SP_def BACKSLASH_def LOWER_R_def GT_def
  OBD_OUTPUT_DELIMETER_def MODE_01_def

lemmas parser_defs = transform_def initial_def toString_def utf8_lead_def utf16_def hasPrompt_def
  indexOf_def extractOutputStrings_def split_def replace_first_def trim_def js_whitespace_def
  parseObdString_def parseRealTime_def isHex_def hex_class_def getByteGroupings_def
  line_terminator_def flush_def at_def slice_def untimed_def Let_def

subsection \<open>String methods\<close>

lemma indexOf_from_single:
  "indexOf_from k s [c] = (if c \<in> set s then int (k + length (takeWhile (\<lambda>x. x \<noteq> c) s)) else - 1)"
  by (induction s arbitrary: k) auto

lemma delimiter_is_prompt: "OBD_OUTPUT_DELIMETER = [GT]"
  by (simp add: OBD_OUTPUT_DELIMETER_def js_def GT_def)

lemma hasPrompt_iff: "hasPrompt s \<longleftrightarrow> GT \<in> set s"
  by (simp add: hasPrompt_def indexOf_def OBD_OUTPUT_DELIMETER_def js_def GT_def indexOf_from_single)




lemma replace_all_single: "replace_all [c] [] s = filter (\<lambda>x. x \<noteq> c) s"
  by (induction s) auto


lemma take_drop_nth:
  "take m (drop a xs) = map ((!) xs) [a..<min (a + m) (length xs)]"
proof (rule nth_equalityI)
  show "length (take m (drop a xs)) = length (map ((!) xs) [a..<min (a + m) (length xs)])"
    by auto
next
  fix i assume "i < length (take m (drop a xs))"
  then have i: "i < m" "a + i < length xs" by auto
  then have "i < min (a + m) (length xs) - a" by auto
  with i show "take m (drop a xs) ! i = map ((!) xs) [a..<min (a + m) (length xs)] ! i"
    by (simp del: upt_Suc)
qed

lemma upt_window:
  "a \<le> n \<Longrightarrow> b \<le> n \<Longrightarrow> [a..<min (a + (b - a)) n] = [a..<b]" for a b n :: nat
  by (cases "a \<le> b") (simp_all add: min_def)

lemma slice_nat:
  "slice xs (int a) (int b) = map ((!) xs) [min a (length xs)..<min b (length xs)]"
proof -
  let ?a = "min a (length xs)" and ?b = "min b (length xs)"
  have "slice xs (int a) (int b) = take (?b - ?a) (drop ?a xs)"
    by (simp add: slice_def Let_def nat_diff_distrib' flip: of_nat_min)
  also have "\<dots> = map ((!) xs) [?a..<min (?a + (?b - ?a)) (length xs)]"
    by (rule take_drop_nth)
  also have "[?a..<min (?a + (?b - ?a)) (length xs)] = [?a..<?b]"
    by (rule upt_window) simp_all
  finally show ?thesis .
qed

lemma slice_indices:
  "slice xs 2 (int n) = map ((!) xs) [2..<min n (length xs)]"
proof -
  have "slice xs (int 2) (int n) = map ((!) xs) [min 2 (length xs)..<min n (length xs)]"
    by (rule slice_nat)
  moreover have "[min 2 (length xs)..<min n (length xs)] = [2..<min n (length xs)]"
    by (cases "2 \<le> length xs") (simp_all del: upt_Suc)
  ultimately show ?thesis by simp
qed

subsection \<open>The hexadecimal class and the byte groups\<close>

lemma unat_eq_iff16: "n < 65536 \<Longrightarrow> unat (c :: 16 word) = n \<longleftrightarrow> c = of_nat n"
  by (auto simp: unat_of_nat)

lemma hex_class_iff: "hex_class c \<longleftrightarrow> c \<in> set (js ''0123456789ABCDEF'')"
proof -
  have "hex_class c \<longleftrightarrow> unat c \<in> {48..<58} \<union> {65..<71}"
    by (auto simp: hex_class_def word_le_nat_alt)
  also have "\<dots> \<longleftrightarrow> unat c \<in> set ([48..<58] @ [65..<71])"
    by (simp only: set_append set_upt)
  also have "\<dots> \<longleftrightarrow> c \<in> set (js ''0123456789ABCDEF'')"
    by (simp add: js_def unat_eq_iff16 upt_rec_numeral)
  finally show ?thesis .
qed

lemma match_hex_line_iff: "match_hex_line s \<longleftrightarrow> s \<noteq> [] \<and> (\<forall>c\<in>set s. hex_class c)"
  by (induction s rule: match_hex_line.induct) auto

lemma isHex_iff: "isHex s \<longleftrightarrow> s \<noteq> [] \<and> (\<forall>c\<in>set s. hex_class c)"
  by (simp add: isHex_def match_hex_line_iff)

lemma hex_class_plain: "hex_class c \<Longrightarrow> c \<noteq> SP \<and> \<not> line_terminator c"
  by (auto simp: hex_class_def SP_def line_terminator_def)

lemma group_spec_Nil: "group_spec [] = []"
  by (simp add: group_spec_def)

lemma group_spec_single: "group_spec [c] = [[c]]"
  by (simp add: group_spec_def)

lemma group_spec_Cons2: "group_spec (c # d # s) = [c, d] # group_spec s"
proof -
  have "[0..<(length (c # d # s) + 1) div 2] = 0 # map Suc [0..<(length s + 1) div 2]"
    by (simp add: upt_conv_Cons map_Suc_upt del: upt_Suc)
  then show ?thesis
    by (simp add: group_spec_def comp_def)
qed

lemma group_spec_length: "length (group_spec t) = (length t + 1) div 2"
  by (simp add: group_spec_def)

lemma group_spec_concat: "concat (group_spec t) = t"
  by (induction t rule: induct_list012)
     (simp_all add: group_spec_Nil group_spec_single group_spec_Cons2)

lemma group_spec_nth:
  "i < length (group_spec t) \<Longrightarrow> length (group_spec t ! i) = min 2 (length t - 2 * i)"
  by (simp add: group_spec_def min_def)

lemma group_spec_inner:
  assumes "Suc i < length (group_spec t)"
  shows "length (group_spec t ! i) = 2"
proof -
  from assms have "2 * i + 2 \<le> length t"
    by (simp add: group_spec_length)
  with assms show ?thesis
    by (simp add: group_spec_nth)
qed

lemma group_spec_last:
  assumes "t \<noteq> []"
  shows "length (last (group_spec t)) = (if odd (length t) then 1 else 2)"
proof -
  let ?n = "(length t + 1) div 2"
  from assms have n: "0 < ?n" by (cases t) simp_all
  then have ne: "group_spec t \<noteq> []"
    by (simp flip: length_greater_0_conv add: group_spec_length)
  then have "last (group_spec t) = group_spec t ! (?n - 1)"
    by (simp add: last_conv_nth group_spec_length)
  moreover from n have "?n - 1 < length (group_spec t)"
    by (simp add: group_spec_length)
  ultimately have "length (last (group_spec t)) = min 2 (length t - 2 * (?n - 1))"
    by (simp add: group_spec_nth)
  also have "\<dots> = (if odd (length t) then 1 else 2)"
    using n by (auto elim!: oddE evenE)
  finally show ?thesis .
qed

lemma match_pairs_plain:
  "\<forall>c\<in>set s. \<not> line_terminator c \<Longrightarrow> match_pairs s = group_spec s"
  by (induction s rule: match_pairs.induct)
     (simp_all add: group_spec_Nil group_spec_single group_spec_Cons2)

lemma match_pairs_Nil_iff: "match_pairs s = [] \<longleftrightarrow> (\<forall>c\<in>set s. line_terminator c)"
  by (induction s rule: match_pairs.induct) auto

lemma groupings_plain:
  assumes "t = filter (\<lambda>c. c \<noteq> SP) s" "t \<noteq> []" "\<forall>c\<in>set t. \<not> line_terminator c"
  shows "getByteGroupings s = Some (group_spec t)"
proof -
  from assms(3) have "match_pairs t = group_spec t"
    by (rule match_pairs_plain)
  moreover from assms(2,3) have "match_pairs t \<noteq> []"
    by (auto simp: match_pairs_Nil_iff neq_Nil_conv)
  ultimately show ?thesis
    using assms(1) by (simp add: getByteGroupings_def replace_all_single)
qed

lemma isHex_groups:
  assumes "isHex s"
  shows "getByteGroupings s = Some (group_spec s)" and "group_spec s \<noteq> []"
proof -
  from assms have ne: "s \<noteq> []" and hex: "\<forall>c\<in>set s. hex_class c"
    by (simp_all add: isHex_iff)
  from hex have nosp: "filter (\<lambda>x. x \<noteq> SP) s = s" and plain: "\<forall>c\<in>set s. \<not> line_terminator c"
    by (auto simp: hex_class_plain filter_id_conv)
  from plain have mp: "match_pairs s = group_spec s"
    by (rule match_pairs_plain)
  from ne plain have "match_pairs s \<noteq> []"
    by (auto simp: match_pairs_Nil_iff neq_Nil_conv)
  with mp show "group_spec s \<noteq> []" by simp
  with mp nosp show "getByteGroupings s = Some (group_spec s)"
    by (simp add: getByteGroupings_def replace_all_single)
qed

subsection \<open>The parser raises no exception\<close>

lemma parseObdString_returns: "\<exists>r. parseObdString now pids s = Inr r"
proof (cases "isHex s")
  case True
  then show ?thesis
    by (simp add: parseObdString_def isHex_groups Let_def split: sum.split)
next
  case False
  then show ?thesis by (simp add: parseObdString_def Let_def)
qed

lemma emit_each_no_exception: "snd (emit_each clock i pids cs) = None"
proof (induction cs arbitrary: i)
  case Nil
  show ?case by simp
next
  case (Cons c cs)
  obtain r where "parseObdString (clock i) pids c = Inr r"
    using parseObdString_returns by blast
  with Cons [of "Suc i"] show ?case
    by (auto split: prod.split)
qed

lemma transform_no_prompt:
  "GT \<notin> set (buffer st @ toString d) \<Longrightarrow>
   transform clock pids st d = (st\<lparr>buffer := buffer st @ toString d\<rparr>, [], None)"
  by (simp add: transform_def hasPrompt_iff)

lemma transform_prompt:
  "GT \<in> set (buffer st @ toString d) \<Longrightarrow>
   transform clock pids st d =
     (st\<lparr>buffer := []\<rparr>,
      LineBreak # fst (emit_each clock 0 pids (extractOutputStrings (buffer st @ toString d))),
      None)"
  using emit_each_no_exception [of clock 0 pids "extractOutputStrings (buffer st @ toString d)"]
  by (auto simp add: transform_def hasPrompt_iff flush_def split: prod.split option.split)

lemma parseObdString_clock:
  "parseObdString now pids c = map_sum id (\<lambda>r. r\<lparr>ts := now\<rparr>) (parseObdString 0 pids c)"
  by (simp add: parseObdString_def Let_def split: option.split sum.split)

lemma emit_each_untimed:
  "map untimed (fst (emit_each clock i pids cs)) = map untimed (fst (emit_each clock' j pids cs))"
proof (induction cs arbitrary: i j)
  case Nil
  show ?case by simp
next
  case (Cons c cs)
  obtain r where r: "parseObdString 0 pids c = Inr r"
    using parseObdString_returns by blast
  have "parseObdString (clock i) pids c = Inr (r\<lparr>ts := clock i\<rparr>)"
    and "parseObdString (clock' j) pids c = Inr (r\<lparr>ts := clock' j\<rparr>)"
    using r by (simp_all add: parseObdString_clock [of "clock i"] parseObdString_clock [of "clock' j"])
  with Cons [of "Suc i" "Suc j"] show ?case
    by (auto simp add: untimed_def split: prod.split)
qed

subsection \<open>Decoding a chunk\<close>

lemma utf8_decode_ascii:
  "\<forall>b\<in>set bs. b < 0x80 \<Longrightarrow> utf8_decode 0 0 0x80 0xBF bs = map ucast bs"
proof (induction bs)
  case Nil
  show ?case by simp
next
  case (Cons b bs)
  then have "unat b \<le> 0x7F"
    by (simp add: word_less_nat_alt)
  with Cons show ?case
    by (simp add: utf8_lead_def)
qed

lemma toString_ascii: "\<forall>b\<in>set bs. b < 0x80 \<Longrightarrow> toString bs = map ucast bs"
  by (simp add: toString_def utf8_decode_ascii)

lemma ascii_chunks_decode_independently:
  assumes "\<forall>b\<in>set (concat (map snd cs)). b < 0x80"
  shows "toString (concat (map snd cs)) = concat (map (\<lambda>c. toString (snd c)) cs)"
proof -
  from assms have "\<forall>c\<in>set cs. toString (snd c) = map ucast (snd c)"
    by (auto intro: toString_ascii)
  then have "concat (map (\<lambda>c. toString (snd c)) cs) = concat (map (\<lambda>c. map ucast (snd c)) cs)"
    by (auto intro: arg_cong [where f = concat])
  also have "\<dots> = map ucast (concat (map snd cs))"
    by (simp add: map_concat comp_def)
  also from assms have "\<dots> = toString (concat (map snd cs))"
    by (simp add: toString_ascii)
  finally show ?thesis by simp
qed

lemma utf8_lead_unit: "utf8_lead b = Unit u \<Longrightarrow> u = b \<and> b \<le> 0x7F"
  by (auto simp: utf8_lead_def split: if_splits)

lemma of_nat_not_prompt: "n < 65536 \<Longrightarrow> n \<noteq> 62 \<Longrightarrow> (of_nat n :: 16 word) \<noteq> GT"
proof
  assume n: "n < 65536" "n \<noteq> 62" and "(of_nat n :: 16 word) = GT"
  then have "unat (of_nat n :: 16 word) = unat (0x3E :: 16 word)"
    by (simp add: GT_def)
  with n show False by (simp add: unat_of_nat)
qed

lemma utf16_no_prompt: "64 \<le> cp \<Longrightarrow> cp < 2097152 \<Longrightarrow> GT \<notin> set (utf16 cp)"
proof -
  assume lo: "64 \<le> cp" and hi: "cp < 2097152"
  show ?thesis
  proof (cases "cp < 0x10000")
    case True
    with lo of_nat_not_prompt [of cp] show ?thesis
      by (auto simp add: utf16_def)
  next
    case False
    with hi have "(cp - 0x10000) div 0x400 < 2048" by simp
    then have a: "0xD800 + (cp - 0x10000) div 0x400 < 65536" "0xD800 + (cp - 0x10000) div 0x400 \<noteq> 62"
      by simp_all
    have "(cp - 0x10000) mod 0x400 < 1024" by simp
    then have b: "0xDC00 + (cp - 0x10000) mod 0x400 < 65536" "0xDC00 + (cp - 0x10000) mod 0x400 \<noteq> 62"
      by simp_all
    from False show ?thesis
      using of_nat_not_prompt [OF a] of_nat_not_prompt [OF b]
      by (auto simp add: utf16_def)
  qed
qed

lemma mod_window: "d * q \<le> b \<Longrightarrow> b < d * q + d \<Longrightarrow> b mod d = b - d * q" for b d q :: nat
proof -
  assume a: "d * q \<le> b" "b < d * q + d"
  then have "b = (b - d * q) + d * q" by simp
  then have "b mod d = ((b - d * q) + d * q) mod d" by simp
  also have "\<dots> = (b - d * q) mod d" by (rule mod_mult_self2)
  also from a have "\<dots> = b - d * q" by simp
  finally show ?thesis .
qed

lemma utf8_lead_inv: "utf8_lead b = Start n cp lo hi \<Longrightarrow> utf8_inv n cp lo hi"
proof -
  assume a: "utf8_lead b = Start n cp lo hi"
  have m32: "0xC2 \<le> b \<Longrightarrow> b \<le> 0xDF \<Longrightarrow> 1 \<le> b mod 32 \<and> b mod 32 < 32768"
    using mod_window [of 32 6 b] by auto
  have m16: "0xE0 < b \<Longrightarrow> b \<le> 0xEF \<Longrightarrow> 1 \<le> b mod 16"
    using mod_window [of 16 14 b] by auto
  have m8: "0xF0 < b \<Longrightarrow> b \<le> 0xF4 \<Longrightarrow> 1 \<le> b mod 8"
    using mod_window [of 8 30 b] by auto
  have l16: "b mod 16 < 512" and l8: "b mod 8 < 8"
    by (simp_all add: less_trans [OF mod_less_divisor])
  from a show ?thesis
    using m32 m16 m8 l16 l8
    by (auto simp: utf8_lead_def utf8_inv_def split: if_splits)
qed

lemma utf8_cont_low:
  "0x80 \<le> lo \<Longrightarrow> hi \<le> 0xBF \<Longrightarrow> lo \<le> b \<Longrightarrow> b \<le> hi \<Longrightarrow>
   b mod 64 < 64 \<and> (0x90 \<le> lo \<longrightarrow> 1 \<le> b mod 64)"
  for b lo hi :: nat
proof (intro conjI impI)
  show "b mod 64 < 64" by simp
next
  assume a: "0x80 \<le> lo" "hi \<le> 0xBF" "lo \<le> b" "b \<le> hi" "0x90 \<le> lo"
  then have "64 * 2 \<le> b" "b < 64 * 2 + 64" by linarith+
  then have "b mod 64 = b - 64 * 2" by (rule mod_window)
  with a show "1 \<le> b mod 64" by linarith
qed

lemma utf8_step_arith:
  "utf8_inv n cp lo hi \<Longrightarrow> n \<noteq> 0 \<Longrightarrow> n \<noteq> 1 \<Longrightarrow> x < 64 \<Longrightarrow> (0x90 \<le> lo \<longrightarrow> 1 \<le> x) \<Longrightarrow>
   utf8_inv (n - 1) (cp * 64 + x) 0x80 0xBF"
  by (auto simp: utf8_inv_def)

lemma utf8_step_inv:
  assumes "utf8_inv n cp lo hi" "n \<noteq> 0" "n \<noteq> 1" "lo \<le> b" "b \<le> hi"
  shows "utf8_inv (n - 1) (cp * 64 + b mod 64) 0x80 0xBF"
proof -
  from assms have r: "0x80 \<le> lo" "hi \<le> 0xBF"
    by (auto simp: utf8_inv_def)
  from utf8_cont_low [OF r assms(4,5)] show ?thesis
    by (intro utf8_step_arith [OF assms(1-3)]) blast+
qed

lemma utf8_final_arith:
  "utf8_inv 1 cp lo hi \<Longrightarrow> x < 64 \<Longrightarrow> 64 \<le> cp * 64 + x \<and> cp * 64 + x < 2097152"
  by (auto simp: utf8_inv_def)

lemma utf8_final_bounds:
  assumes "utf8_inv 1 cp lo hi"
  shows "64 \<le> cp * 64 + b mod 64 \<and> cp * 64 + b mod 64 < 2097152"
  by (rule utf8_final_arith [OF assms]) simp

lemma utf8_inv_idle: "utf8_inv 0 cp lo hi"
  by (simp add: utf8_inv_def)

lemma replacement_not_prompt: "(0xFFFD :: code_unit) \<noteq> GT"
  by (simp add: GT_def)

lemma byte_unit_not_prompt:
  assumes "b \<noteq> (0x3E :: byte)"
  shows "(of_nat (unat b) :: code_unit) \<noteq> GT"
proof -
  have "unat b < 2 ^ LENGTH(8)" by (rule unsigned_less)
  then have "unat b < 65536" by simp
  moreover from assms have "unat b \<noteq> 62"
    by (simp add: word_unat_eq_iff)
  ultimately show ?thesis
    by (rule of_nat_not_prompt)
qed

lemma utf8_decode_no_prompt:
  "utf8_inv n cp lo hi \<Longrightarrow> 0x3E \<notin> set bs \<Longrightarrow> GT \<notin> set (utf8_decode n cp lo hi bs)"
proof (induction bs arbitrary: n cp lo hi)
  case Nil
  show ?case by (simp add: replacement_not_prompt [symmetric])
next
  case (Cons b bs)
  from Cons.prems have b: "b \<noteq> 0x3E" and bs: "0x3E \<notin> set bs" by auto
  note idle = Cons.IH [OF utf8_inv_idle bs]
  show ?case
  proof (cases "n \<noteq> 0 \<and> lo \<le> unat b \<and> unat b \<le> hi")
    case True
    show ?thesis
    proof (cases "n = 1")
      case True
      with Cons.prems(1) have "utf8_inv 1 cp lo hi" by simp
      from utf8_final_bounds [OF this, of "unat b"]
      have "GT \<notin> set (utf16 (cp * 64 + unat b mod 64))"
        by (simp add: utf16_no_prompt)
      with \<open>n = 1\<close> \<open>n \<noteq> 0 \<and> lo \<le> unat b \<and> unat b \<le> hi\<close> idle show ?thesis
        by (simp add: Let_def)
    next
      case False
      from True have t: "n \<noteq> 0" "lo \<le> unat b" "unat b \<le> hi" by blast+
      have "utf8_inv (n - 1) (cp * 64 + unat b mod 64) 0x80 0xBF"
        by (rule utf8_step_inv [OF Cons.prems(1) t(1) False t(2,3)])
      from Cons.IH [OF this bs] True False show ?thesis
        by (simp add: Let_def)
    qed
  next
    case False
    have "GT \<notin> set (case utf8_lead (unat b) of
           Unit u \<Rightarrow> of_nat u # utf8_decode 0 0 0x80 0xBF bs
         | Start needed' cp' lower' upper' \<Rightarrow> utf8_decode needed' cp' lower' upper' bs
         | Bad \<Rightarrow> 0xFFFD # utf8_decode 0 0 0x80 0xBF bs)"
    proof (cases "utf8_lead (unat b)")
      case (Unit u)
      then have "u = unat b" by (simp add: utf8_lead_unit)
      with Unit idle byte_unit_not_prompt [OF b] show ?thesis
        by auto
    next
      case (Start n' cp' lo' hi')
      from Cons.IH [OF utf8_lead_inv [OF Start] bs] Start show ?thesis
        by simp
    next
      case Bad
      with idle show ?thesis
        by (simp add: replacement_not_prompt [symmetric])
    qed
    with False show ?thesis
      by (auto simp: replacement_not_prompt [symmetric])
  qed
qed

lemma utf8_decode_append_prompt:
  "utf8_inv n cp lo hi \<Longrightarrow>
   utf8_decode n cp lo hi (bs @ [0x3E]) = utf8_decode n cp lo hi bs @ [GT]"
proof (induction bs arbitrary: n cp lo hi)
  case Nil
  then have "n = 0 \<or> \<not> lo \<le> 62" by (auto simp: utf8_inv_def)
  then show ?case
    by (auto simp: utf8_lead_def GT_def)
next
  case (Cons b bs)
  note idle = Cons.IH [OF utf8_inv_idle]
  show ?case
  proof (cases "n \<noteq> 0 \<and> lo \<le> unat b \<and> unat b \<le> hi")
    case True
    show ?thesis
    proof (cases "n = 1")
      case True
      with \<open>n \<noteq> 0 \<and> lo \<le> unat b \<and> unat b \<le> hi\<close> idle show ?thesis
        by (simp add: Let_def)
    next
      case False
      from True have t: "n \<noteq> 0" "lo \<le> unat b" "unat b \<le> hi" by blast+
      have "utf8_inv (n - 1) (cp * 64 + unat b mod 64) 0x80 0xBF"
        by (rule utf8_step_inv [OF Cons.prems(1) t(1) False t(2,3)])
      from Cons.IH [OF this] True False show ?thesis
        by (simp add: Let_def)
    qed
  next
    case False
    have "(case utf8_lead (unat b) of
           Unit u \<Rightarrow> of_nat u # utf8_decode 0 0 0x80 0xBF (bs @ [0x3E])
         | Start needed' cp' lower' upper' \<Rightarrow> utf8_decode needed' cp' lower' upper' (bs @ [0x3E])
         | Bad \<Rightarrow> 0xFFFD # utf8_decode 0 0 0x80 0xBF (bs @ [0x3E])) =
          (case utf8_lead (unat b) of
           Unit u \<Rightarrow> of_nat u # utf8_decode 0 0 0x80 0xBF bs
         | Start needed' cp' lower' upper' \<Rightarrow> utf8_decode needed' cp' lower' upper' bs
         | Bad \<Rightarrow> 0xFFFD # utf8_decode 0 0 0x80 0xBF bs) @ [GT]"
    proof (cases "utf8_lead (unat b)")
      case (Unit u)
      with idle show ?thesis by simp
    next
      case (Start n' cp' lo' hi')
      from Cons.IH [OF utf8_lead_inv [OF Start]] Start show ?thesis
        by simp
    next
      case Bad
      with idle show ?thesis by simp
    qed
    with False show ?thesis
      by auto
  qed
qed

lemma toString_prompt_last:
  "0x3E \<notin> set bs \<Longrightarrow> toString (bs @ [0x3E]) = toString bs @ [GT] \<and> GT \<notin> set (toString bs)"
  by (simp add: toString_def utf8_decode_append_prompt utf8_decode_no_prompt utf8_inv_idle)

subsection \<open>Writing the chunks of one response\<close>

lemma write_chunks_idle:
  "\<forall>c\<in>set cs. toString (snd c) = [] \<Longrightarrow> GT \<notin> set (buffer st) \<Longrightarrow>
   write_chunks pids st cs = (st, [], None)"
proof (induction cs)
  case Nil
  show ?case by simp
next
  case (Cons c cs)
  obtain clock d where c: "c = (clock, d)" by (cases c)
  with Cons.prems have "toString d = []" by simp
  with Cons.prems have "transform clock pids st d = (st, [], None)"
    by (simp add: transform_no_prompt)
  with Cons c show ?case by simp
qed

lemma last_occurrence:
  assumes "xs @ ys = body @ [g]" "g \<notin> set body" "g \<in> set xs"
  shows "ys = [] \<and> xs = body @ [g]"
proof (cases ys rule: rev_cases)
  case Nil
  with assms show ?thesis by simp
next
  case (snoc zs z)
  with assms(1) have "xs @ zs = body" by simp
  with assms(2,3) show ?thesis by auto
qed

lemma write_chunks_complete:
  assumes "buffer st @ concat (map (\<lambda>c. toString (snd c)) cs) = body @ [GT]"
    and "GT \<notin> set body" and "GT \<notin> set (buffer st)"
  shows "\<exists>clock. write_chunks pids st cs =
           (st\<lparr>buffer := []\<rparr>,
            LineBreak # fst (emit_each clock 0 pids (extractOutputStrings (body @ [GT]))), None)"
  using assms
proof (induction cs arbitrary: st)
  case Nil
  then show ?case by auto
next
  case (Cons c cs)
  obtain clock d where c: "c = (clock, d)" by (cases c)
  let ?R = "concat (map (\<lambda>c. toString (snd c)) cs)"
  from Cons.prems(1) c have eq: "(buffer st @ toString d) @ ?R = body @ [GT]" by simp
  show ?case
  proof (cases "GT \<in> set (buffer st @ toString d)")
    case True
    from last_occurrence [OF eq Cons.prems(2) True]
    have R: "?R = []" and whole: "buffer st @ toString d = body @ [GT]" by simp_all
    from R have "\<forall>c\<in>set cs. toString (snd c) = []" by simp
    then have "write_chunks pids (st\<lparr>buffer := []\<rparr>) cs = (st\<lparr>buffer := []\<rparr>, [], None)"
      by (rule write_chunks_idle) simp
    with transform_prompt [OF True, of clock pids] whole c show ?thesis
      by auto
  next
    case False
    let ?st = "st\<lparr>buffer := buffer st @ toString d\<rparr>"
    from eq have "buffer ?st @ ?R = body @ [GT]" by simp
    moreover from False have "GT \<notin> set (buffer ?st)" by simp
    ultimately obtain clock' where
      "write_chunks pids ?st cs =
         (?st\<lparr>buffer := []\<rparr>,
          LineBreak # fst (emit_each clock' 0 pids (extractOutputStrings (body @ [GT]))), None)"
      using Cons.IH [of ?st] Cons.prems(2) by blast
    with transform_no_prompt [OF False, of clock pids] c show ?thesis
      by auto
  qed
qed

lemma framing_on_text:
  assumes indep: "toString (concat (map snd cs)) = concat (map (\<lambda>c. toString (snd c)) cs)"
    and complete: "toString (concat (map snd cs)) = body @ OBD_OUTPUT_DELIMETER"
    and only: "\<not> hasPrompt body"
  shows "map untimed (fst (snd (write_chunks pids initial cs))) =
           map untimed (fst (snd (transform clock pids initial (concat (map snd cs))))) \<and>
         fst (write_chunks pids initial cs) = fst (transform clock pids initial (concat (map snd cs))) \<and>
         snd (snd (write_chunks pids initial cs)) = None \<and>
         snd (snd (transform clock pids initial (concat (map snd cs)))) = None"
proof -
  have D: "OBD_OUTPUT_DELIMETER = [GT]"
    by (simp add: OBD_OUTPUT_DELIMETER_def js_def GT_def)
  from only have nb: "GT \<notin> set body" by (simp add: hasPrompt_iff)
  from complete have whole: "toString (concat (map snd cs)) = body @ [GT]"
    unfolding D .
  from indep whole
  have "buffer initial @ concat (map (\<lambda>c. toString (snd c)) cs) = body @ [GT]"
    by (simp add: initial_def)
  from write_chunks_complete [OF this nb, of pids]
  obtain clock' where w: "write_chunks pids initial cs =
      (initial\<lparr>buffer := []\<rparr>,
       LineBreak # fst (emit_each clock' 0 pids (extractOutputStrings (body @ [GT]))), None)"
    by (auto simp: initial_def)
  from whole have "GT \<in> set (buffer initial @ toString (concat (map snd cs)))"
    by simp
  from transform_prompt [OF this, of clock pids] whole
  have t: "transform clock pids initial (concat (map snd cs)) =
      (initial\<lparr>buffer := []\<rparr>,
       LineBreak # fst (emit_each clock 0 pids (extractOutputStrings (body @ [GT]))), None)"
    by (simp add: initial_def)
  show ?thesis
    unfolding w t using emit_each_untimed [of clock' 0 pids _ clock 0]
    by (simp add: untimed_def)
qed

subsection \<open>Segments of a frame\<close>

























subsection \<open>The examples of the specification\<close>

lemma ex_group1: "getByteGroupings (js ''1B56'') = Some [js ''1B'', js ''56'']"
  by (simp add: js_consts parser_defs)

lemma ex_group2: "getByteGroupings (js ''1B5'') = Some [js ''1B'', js ''5'']"
  by (simp add: js_consts parser_defs)

lemma ex_nodata_gen:
  "transform clock pids initial (ascii ''NODATA>'') =
     (initial, [LineBreak, Data \<lparr>ts = clock 0, value = None, raw = js ''NODATA'',
        byteGroups = Some [js ''NO'', js ''DA'', js ''TA''], error = None\<rparr>], None)"
  by (simp add: js_consts parser_defs)

lemma ex_unsupported:
  "transform clock pids initial (ascii ''5512AB'' @ [0x0D, 0x0D, 0x3E]) =
     (initial, [LineBreak, Data \<lparr>ts = clock 0, value = None, raw = js ''5512AB'',
        byteGroups = Some [js ''55'', js ''12'', js ''AB''],
        error = Some (UnsupportedMode (js ''55 12 AB'') (Some (js ''55'')))\<rparr>], None)"
  by (simp add: js_consts parser_defs)

lemma ex_rpm:
  "write_chunks echo_pids initial [(tick, ascii ''41''), (tick, ascii ''0C1B56'' @ [0x0D, 0x0D, 0x3E])] =
     (initial, [LineBreak, Data \<lparr>ts = 1000, value = Some [js ''1B''], raw = js ''410C1B56'',
        byteGroups = Some [js ''41'', js ''0C'', js ''1B'', js ''56''],
        error = None\<rparr>], None)"
  by (simp add: js_consts parser_defs tick_def echo_pids_def)

lemma ex_two_prompts: "extractOutputStrings (js ''41>0C>'') = [js ''410C>'']"
  by (simp add: js_consts parser_defs)

section \<open>The claims\<close>

subsection \<open>C1: chunk boundaries\<close>

text \<open>
  C1, as stated, fails: \<open>_transform\<close> decodes every chunk on its own, so a chunk
  boundary inside a multi-byte UTF-8 sequence changes the text. The response
  \<open>C3 A9 3E\<close> (an e with acute accent, then the prompt; its only \<open>3E\<close> is the last
  byte) gives \<open>raw\<close> = U+00E9 when written whole, and \<open>raw\<close> = U+FFFD U+FFFD when
  written as the chunks \<open>C3\<close> and \<open>A9 3E\<close>.
\<close>

theorem chunk_boundary_inside_character:
  "concat [[0xC3], [0xA9, 0x3E]] = [0xC3, 0xA9] @ [0x3E :: byte] \<and>
   (0x3E :: byte) \<notin> set [0xC3, 0xA9] \<and>
   map untimed (fst (snd (write_chunks no_pids initial [(tick, [0xC3]), (tick, [0xA9, 0x3E])]))) =
     [LineBreak, Data \<lparr>ts = 0, value = None, raw = [0xFFFD, 0xFFFD],
        byteGroups = Some [[0xFFFD, 0xFFFD]], error = None\<rparr>] \<and>
   map untimed (fst (snd (transform tick no_pids initial (concat [[0xC3], [0xA9, 0x3E]])))) =
     [LineBreak, Data \<lparr>ts = 0, value = None, raw = [0xE9],
        byteGroups = Some [[0xE9]], error = None\<rparr>] \<and>
   map untimed (fst (snd (write_chunks no_pids initial [(tick, [0xC3]), (tick, [0xA9, 0x3E])]))) \<noteq>
   map untimed (fst (snd (transform tick no_pids initial (concat [[0xC3], [0xA9, 0x3E]]))))"
  by (simp add: js_consts parser_defs)

text \<open>
  C1 (amended): for every complete adapter response (a byte sequence whose only
  occurrence of the prompt byte \<open>3E\<close> is its last byte) and every way of partitioning
  it into successive chunks that decode independently (decoding the chunks one by one
  gives the text of the whole response: no chunk boundary falls inside a multi-byte
  UTF-8 sequence, as in every partition of an ASCII response), writing the chunks one
  at a time emits the same events as writing the whole response in one call, timestamps
  aside; both leave the same state and neither raises.
\<close>

theorem framing_chunk_invariant:
  assumes "concat (map snd cs) = pre @ [0x3E]"
    and "0x3E \<notin> set pre"
    and "toString (concat (map snd cs)) = concat (map (\<lambda>c. toString (snd c)) cs)"
  shows "map untimed (fst (snd (write_chunks pids initial cs))) =
           map untimed (fst (snd (transform clock pids initial (concat (map snd cs))))) \<and>
         fst (write_chunks pids initial cs) = fst (transform clock pids initial (concat (map snd cs))) \<and>
         snd (snd (write_chunks pids initial cs)) = None \<and>
         snd (snd (transform clock pids initial (concat (map snd cs)))) = None"
proof -
  from toString_prompt_last [OF assms(2)] assms(1)
  have "toString (concat (map snd cs)) = toString pre @ OBD_OUTPUT_DELIMETER"
    and "\<not> hasPrompt (toString pre)"
    by (simp_all add: delimiter_is_prompt hasPrompt_iff)
  from framing_on_text [OF assms(3) this] show ?thesis .
qed

text \<open>
  The response \<open>410C1B56\r\r>\<close> written as the chunks \<open>41\<close> and \<open>0C1B56\r\r>\<close>.
\<close>

theorem framing_chunk_invariant_witness:
  "concat (map snd [(tick, ascii ''41''), (tick, ascii ''0C1B56'' @ [0x0D, 0x0D, 0x3E])]) =
     (ascii ''410C1B56'' @ [0x0D, 0x0D]) @ [0x3E] \<and>
   0x3E \<notin> set (ascii ''410C1B56'' @ [0x0D, 0x0D]) \<and>
   map untimed (fst (snd (write_chunks echo_pids initial
       [(tick, ascii ''41''), (tick, ascii ''0C1B56'' @ [0x0D, 0x0D, 0x3E])]))) =
   map untimed (fst (snd (transform tick echo_pids initial
       (concat (map snd [(tick, ascii ''41''), (tick, ascii ''0C1B56'' @ [0x0D, 0x0D, 0x3E])]))))) \<and>
   fst (snd (write_chunks echo_pids initial
       [(tick, ascii ''41''), (tick, ascii ''0C1B56'' @ [0x0D, 0x0D, 0x3E])])) =
     [LineBreak, Data \<lparr>ts = 1000, value = Some [js ''1B''], raw = js ''410C1B56'',
        byteGroups = Some [js ''41'', js ''0C'', js ''1B'', js ''56''], error = None\<rparr>]"
proof -
  let ?cs = "[(tick, ascii ''41''), (tick, ascii ''0C1B56'' @ [0x0D, 0x0D, 0x3E])]"
  have h1: "concat (map snd ?cs) = (ascii ''410C1B56'' @ [0x0D, 0x0D]) @ [0x3E]"
    by (simp add: ascii_def)
  have h2: "0x3E \<notin> set (ascii ''410C1B56'' @ [0x0D, 0x0D])"
    by (simp add: ascii_def)
  have h3: "toString (concat (map snd ?cs)) = concat (map (\<lambda>c. toString (snd c)) ?cs)"
    by (simp add: ascii_def toString_def utf8_lead_def)
  have v: "fst (snd (write_chunks echo_pids initial ?cs)) =
     [LineBreak, Data \<lparr>ts = 1000, value = Some [js ''1B''], raw = js ''410C1B56'',
        byteGroups = Some [js ''41'', js ''0C'', js ''1B'', js ''56''], error = None\<rparr>]"
    by (simp only: ex_rpm fst_conv snd_conv)
  from framing_chunk_invariant [OF h1 h2 h3, of echo_pids tick] h1 h2 v show ?thesis
    by blast
qed

subsection \<open>C2: the buffer\<close>

text \<open>
  C2: the prompt delimiter is the single character \<open>>\<close>. After a call of
  \<open>_transform\<close> in which the accumulated buffer (the previous buffer followed by the
  text of the chunk) does not contain it, the buffer is the accumulated buffer and
  nothing was emitted; after a call in which the accumulated buffer contains it, the
  buffer is empty (and no exception kept \<open>_flush\<close> from running).
\<close>

theorem buffer_lifecycle:
  "OBD_OUTPUT_DELIMETER = [GT] \<and>
   (GT \<notin> set (buffer st @ toString data) \<longrightarrow>
      transform clock pids st data = (st\<lparr>buffer := buffer st @ toString data\<rparr>, [], None)) \<and>
   (GT \<in> set (buffer st @ toString data) \<longrightarrow>
      buffer (fst (transform clock pids st data)) = [] \<and>
      snd (snd (transform clock pids st data)) = None)"
  by (simp add: delimiter_is_prompt transform_no_prompt transform_prompt del: set_append)

theorem buffer_lifecycle_witness:
  "GT \<notin> set (buffer \<lparr>buffer = js ''41''\<rparr> @ toString (ascii ''0C1B'')) \<and>
   transform tick echo_pids \<lparr>buffer = js ''41''\<rparr> (ascii ''0C1B'') = (\<lparr>buffer = js ''410C1B''\<rparr>, [], None) \<and>
   GT \<in> set (buffer \<lparr>buffer = js ''410C1B''\<rparr> @ toString (ascii ''56>'')) \<and>
   buffer (fst (transform tick echo_pids \<lparr>buffer = js ''410C1B''\<rparr> (ascii ''56>''))) = []"
proof -
  have t1: "toString (ascii ''0C1B'') = js ''0C1B''" and t2: "toString (ascii ''56>'') = js ''56>''"
    by (simp_all add: js_consts toString_def utf8_lead_def)
  have h1: "GT \<notin> set (buffer \<lparr>buffer = js ''41''\<rparr> @ toString (ascii ''0C1B''))"
    by (simp add: t1) (simp add: js_consts)
  have h2: "GT \<in> set (buffer \<lparr>buffer = js ''410C1B''\<rparr> @ toString (ascii ''56>''))"
    by (simp add: t2) (simp add: js_consts)
  from buffer_lifecycle [of "\<lparr>buffer = js ''41''\<rparr>" "ascii ''0C1B''" tick echo_pids] h1
  have "transform tick echo_pids \<lparr>buffer = js ''41''\<rparr> (ascii ''0C1B'') =
          (\<lparr>buffer = js ''41''\<rparr>\<lparr>buffer := buffer \<lparr>buffer = js ''41''\<rparr> @ toString (ascii ''0C1B'')\<rparr>, [], None)"
    by blast
  then have r1: "transform tick echo_pids \<lparr>buffer = js ''41''\<rparr> (ascii ''0C1B'') = (\<lparr>buffer = js ''410C1B''\<rparr>, [], None)"
    by (simp add: t1 js_def)
  from buffer_lifecycle [of "\<lparr>buffer = js ''410C1B''\<rparr>" "ascii ''56>''" tick echo_pids] h2
  have r2: "buffer (fst (transform tick echo_pids \<lparr>buffer = js ''410C1B''\<rparr> (ascii ''56>''))) = []"
    by blast
  from h1 r1 h2 r2 show ?thesis by blast
qed

subsection \<open>C3: the splitter\<close>




subsection \<open>C4: generic messages\<close>

text \<open>
  C4: for every command string that is not hexadecimal, \<open>parseObdString\<close> returns a
  result with \<open>value\<close> null and no \<open>error\<close>, whose \<open>raw\<close> is the command string and
  whose \<open>byteGroups\<close> are those of the command string; and the input \<open>NODATA>\<close>
  written to a fresh parser emits exactly one result, with \<open>raw\<close> = \<open>NODATA\<close>,
  \<open>value\<close> null and no \<open>error\<close>.
\<close>

theorem generic_message:
  "(\<not> isHex cmd \<longrightarrow>
      parseObdString now pids cmd =
        Inr \<lparr>ts = now, value = None, raw = cmd, byteGroups = getByteGroupings cmd, error = None\<rparr>) \<and>
   transform clock pids initial (ascii ''NODATA>'') =
     (initial,
      [LineBreak, Data \<lparr>ts = clock 0, value = None, raw = js ''NODATA'',
         byteGroups = Some [js ''NO'', js ''DA'', js ''TA''], error = None\<rparr>],
      None)"
  by (simp add: ex_nodata_gen) (simp add: parseObdString_def Let_def)

theorem generic_message_witness:
  "\<not> isHex (js ''SEARCHING...'') \<and>
   parseObdString 1000 echo_pids (js ''SEARCHING...'') =
     Inr \<lparr>ts = 1000, value = None, raw = js ''SEARCHING...'',
          byteGroups = Some [js ''SE'', js ''AR'', js ''CH'', js ''IN'', js ''G.'', js ''..''],
          error = None\<rparr>"
proof -
  have h: "\<not> isHex (js ''SEARCHING...'')"
    by (simp add: js_consts isHex_def hex_class_def)
  have g: "getByteGroupings (js ''SEARCHING...'') =
      Some [js ''SE'', js ''AR'', js ''CH'', js ''IN'', js ''G.'', js ''..'']"
    by (simp add: js_consts getByteGroupings_def line_terminator_def)
  from generic_message [of "js ''SEARCHING...''" 1000 echo_pids] h g show ?thesis
    by simp
qed

subsection \<open>C5: unsupported modes\<close>

text \<open>
  C5: for every hexadecimal command string whose first byte group is not \<open>41\<close>,
  \<open>parseObdString\<close> returns (it does not raise) a result whose \<open>error\<close> is the
  unsupported-mode error made of the byte groups joined by spaces and of the mode,
  and whose \<open>value\<close> is null; the input \<open>5512AB\r\r>\<close> written to a fresh parser emits
  exactly that result; and no call of \<open>_transform\<close> ends with an exception.
\<close>

theorem unsupported_mode:
  "(isHex cmd \<and> at (group_spec cmd) 0 \<noteq> Some MODE_01 \<longrightarrow>
      getByteGroupings cmd = Some (group_spec cmd) \<and>
      parseObdString now pids cmd =
        Inr \<lparr>ts = now, value = None, raw = cmd, byteGroups = Some (group_spec cmd),
             error = Some (UnsupportedMode (join (js '' '') (group_spec cmd)) (at (group_spec cmd) 0))\<rparr>) \<and>
   transform clock pids initial (ascii ''5512AB'' @ [0x0D, 0x0D, 0x3E]) =
     (initial,
      [LineBreak, Data \<lparr>ts = clock 0, value = None, raw = js ''5512AB'',
         byteGroups = Some [js ''55'', js ''12'', js ''AB''],
         error = Some (UnsupportedMode (js ''55 12 AB'') (Some (js ''55'')))\<rparr>],
      None) \<and>
   snd (snd (transform clock pids st data)) = None"
proof (intro conjI impI)
  assume a: "isHex cmd \<and> at (group_spec cmd) 0 \<noteq> Some MODE_01"
  then show g: "getByteGroupings cmd = Some (group_spec cmd)"
    by (simp add: isHex_groups)
  from a g show "parseObdString now pids cmd =
        Inr \<lparr>ts = now, value = None, raw = cmd, byteGroups = Some (group_spec cmd),
             error = Some (UnsupportedMode (join (js '' '') (group_spec cmd)) (at (group_spec cmd) 0))\<rparr>"
    by (simp add: parseObdString_def Let_def)
next
  show "transform clock pids initial (ascii ''5512AB'' @ [0x0D, 0x0D, 0x3E]) =
     (initial,
      [LineBreak, Data \<lparr>ts = clock 0, value = None, raw = js ''5512AB'',
         byteGroups = Some [js ''55'', js ''12'', js ''AB''],
         error = Some (UnsupportedMode (js ''55 12 AB'') (Some (js ''55'')))\<rparr>],
      None)"
    by (rule ex_unsupported)
next
  show "snd (snd (transform clock pids st data)) = None"
    by (cases "GT \<in> set (buffer st @ toString data)")
       (simp_all add: transform_prompt transform_no_prompt del: set_append)
qed

text \<open>
  A frame with an unsupported line followed by a supported one: both are decoded.
\<close>

theorem unsupported_mode_witness:
  "isHex (js ''5512AB'') \<and> at (group_spec (js ''5512AB'')) 0 \<noteq> Some MODE_01 \<and>
   parseObdString 1000 echo_pids (js ''5512AB'') =
     Inr \<lparr>ts = 1000, value = None, raw = js ''5512AB'',
          byteGroups = Some [js ''55'', js ''12'', js ''AB''],
          error = Some (UnsupportedMode (js ''55 12 AB'') (Some (js ''55'')))\<rparr> \<and>
   fst (snd (transform tick echo_pids initial
       (ascii ''5512AB'' @ [0x0D] @ ascii ''410C1B56'' @ [0x0D, 0x0D, 0x3E]))) =
     [LineBreak,
      Data \<lparr>ts = 1000, value = None, raw = js ''5512AB'',
          byteGroups = Some [js ''55'', js ''12'', js ''AB''],
          error = Some (UnsupportedMode (js ''55 12 AB'') (Some (js ''55'')))\<rparr>,
      Data \<lparr>ts = 1001, value = Some [js ''1B''], raw = js ''410C1B56'',
          byteGroups = Some [js ''41'', js ''0C'', js ''1B'', js ''56''], error = None\<rparr>]"
proof -
  have h1: "isHex (js ''5512AB'')"
    by (simp add: js_consts isHex_def hex_class_def)
  have gs: "group_spec (js ''5512AB'') = [js ''55'', js ''12'', js ''AB'']"
    by (simp add: js_def group_spec_Cons2 group_spec_Nil)
  have h2: "at (group_spec (js ''5512AB'')) 0 \<noteq> Some MODE_01"
    by (simp add: gs) (simp add: js_consts at_def)
  have j: "join (js '' '') [js ''55'', js ''12'', js ''AB''] = js ''55 12 AB''"
    and a: "at [js ''55'', js ''12'', js ''AB''] 0 = Some (js ''55'')"
    by (simp_all add: js_def at_def)
  have two: "fst (snd (transform tick echo_pids initial
       (ascii ''5512AB'' @ [0x0D] @ ascii ''410C1B56'' @ [0x0D, 0x0D, 0x3E]))) =
     [LineBreak,
      Data \<lparr>ts = 1000, value = None, raw = js ''5512AB'',
          byteGroups = Some [js ''55'', js ''12'', js ''AB''],
          error = Some (UnsupportedMode (js ''55 12 AB'') (Some (js ''55'')))\<rparr>,
      Data \<lparr>ts = 1001, value = Some [js ''1B''], raw = js ''410C1B56'',
          byteGroups = Some [js ''41'', js ''0C'', js ''1B'', js ''56''], error = None\<rparr>]"
    by (simp add: js_consts parser_defs tick_def echo_pids_def)
  from unsupported_mode [of "js ''5512AB''" 1000 echo_pids] h1 h2
  have "parseObdString 1000 echo_pids (js ''5512AB'') =
        Inr \<lparr>ts = 1000, value = None, raw = js ''5512AB'', byteGroups = Some (group_spec (js ''5512AB'')),
             error = Some (UnsupportedMode (join (js '' '') (group_spec (js ''5512AB'')))
                (at (group_spec (js ''5512AB'')) 0))\<rparr>"
    by blast
  then have "parseObdString 1000 echo_pids (js ''5512AB'') =
     Inr \<lparr>ts = 1000, value = None, raw = js ''5512AB'',
          byteGroups = Some [js ''55'', js ''12'', js ''AB''],
          error = Some (UnsupportedMode (js ''55 12 AB'') (Some (js ''55'')))\<rparr>"
    by (simp only: gs j a)
  with h1 h2 two show ?thesis by (simp only: simp_thms)
qed

subsection \<open>C6: the bytes passed to the converter\<close>

text \<open>
  C6: for every hexadecimal command string whose first byte group is \<open>41\<close>: when the
  registry has a descriptor for the second byte group, the converter is called with
  exactly the byte groups at the indices from 2 up to, and excluding, the declared byte
  count, or up to the end of the byte groups when there are fewer, and its value or
  error is the result's; when the registry has none, the result carries the
  no-converter error with that pid.
\<close>

theorem converter_slice:
  "(isHex cmd \<and> at (group_spec cmd) 0 = Some MODE_01 \<longrightarrow>
      getByteGroupings cmd = Some (group_spec cmd) \<and>
      (pids (at (group_spec cmd) 1) = Some info \<longrightarrow>
         parseObdString now pids cmd =
           Inr (case convertBytes info
                       (map ((!) (group_spec cmd)) [2..<min (byteCount info) (length (group_spec cmd))]) of
                  Inl e \<Rightarrow> \<lparr>ts = now, value = None, raw = cmd,
                             byteGroups = Some (group_spec cmd), error = Some (ConversionFailed e)\<rparr>
                | Inr v \<Rightarrow> \<lparr>ts = now, value = Some v, raw = cmd,
                             byteGroups = Some (group_spec cmd), error = None\<rparr>)) \<and>
      (pids (at (group_spec cmd) 1) = None \<longrightarrow>
         parseObdString now pids cmd =
           Inr \<lparr>ts = now, value = None, raw = cmd, byteGroups = Some (group_spec cmd),
                error = Some (NoConverter (at (group_spec cmd) 1))\<rparr>))"
proof (intro conjI impI)
  assume a: "isHex cmd \<and> at (group_spec cmd) 0 = Some MODE_01"
  then show g: "getByteGroupings cmd = Some (group_spec cmd)"
    by (simp add: isHex_groups)
  {
    assume "pids (at (group_spec cmd) 1) = Some info"
    with a g show "parseObdString now pids cmd =
           Inr (case convertBytes info
                       (map ((!) (group_spec cmd)) [2..<min (byteCount info) (length (group_spec cmd))]) of
                  Inl e \<Rightarrow> \<lparr>ts = now, value = None, raw = cmd,
                             byteGroups = Some (group_spec cmd), error = Some (ConversionFailed e)\<rparr>
                | Inr v \<Rightarrow> \<lparr>ts = now, value = Some v, raw = cmd,
                             byteGroups = Some (group_spec cmd), error = None\<rparr>)"
      by (simp add: parseObdString_def parseRealTime_def Let_def slice_indices split: sum.split)
  next
    assume "pids (at (group_spec cmd) 1) = None"
    with a g show "parseObdString now pids cmd =
           Inr \<lparr>ts = now, value = None, raw = cmd, byteGroups = Some (group_spec cmd),
                error = Some (NoConverter (at (group_spec cmd) 1))\<rparr>"
      by (simp add: parseObdString_def parseRealTime_def Let_def)
  }
qed

text \<open>
  With a declared byte count of 3: \<open>410C1B56\<close> passes \<open>1B\<close> only, \<open>410C\<close> passes
  nothing, and \<open>410D32\<close> has no converter.
\<close>

theorem converter_slice_witness:
  "isHex (js ''410C1B56'') \<and> at (group_spec (js ''410C1B56'')) 0 = Some MODE_01 \<and>
   echo_pids (at (group_spec (js ''410C1B56'')) 1) = Some \<lparr>byteCount = 3, convertBytes = Inr\<rparr> \<and>
   parseObdString 1000 echo_pids (js ''410C1B56'') =
     Inr \<lparr>ts = 1000, value = Some [js ''1B''], raw = js ''410C1B56'',
          byteGroups = Some [js ''41'', js ''0C'', js ''1B'', js ''56''], error = None\<rparr> \<and>
   isHex (js ''410C'') \<and> at (group_spec (js ''410C'')) 0 = Some MODE_01 \<and>
   echo_pids (at (group_spec (js ''410C'')) 1) = Some \<lparr>byteCount = 3, convertBytes = Inr\<rparr> \<and>
   parseObdString 1000 echo_pids (js ''410C'') =
     Inr \<lparr>ts = 1000, value = Some [], raw = js ''410C'',
          byteGroups = Some [js ''41'', js ''0C''], error = None\<rparr> \<and>
   isHex (js ''410D32'') \<and> at (group_spec (js ''410D32'')) 0 = Some MODE_01 \<and>
   echo_pids (at (group_spec (js ''410D32'')) 1) = None \<and>
   parseObdString 1000 echo_pids (js ''410D32'') =
     Inr \<lparr>ts = 1000, value = None, raw = js ''410D32'',
          byteGroups = Some [js ''41'', js ''0D'', js ''32''],
          error = Some (NoConverter (Some (js ''0D'')))\<rparr>"
proof -
  let ?info = "\<lparr>byteCount = 3, convertBytes = Inr\<rparr> :: (unit, jsstring list) pid_info"
  have g1: "group_spec (js ''410C1B56'') = [js ''41'', js ''0C'', js ''1B'', js ''56'']"
    and g2: "group_spec (js ''410C'') = [js ''41'', js ''0C'']"
    and g3: "group_spec (js ''410D32'') = [js ''41'', js ''0D'', js ''32'']"
    by (simp_all add: js_def group_spec_Cons2 group_spec_Nil)
  have hex: "isHex (js ''410C1B56'')" "isHex (js ''410C'')" "isHex (js ''410D32'')"
    by (simp_all add: js_consts isHex_def hex_class_def)
  have mode: "at (group_spec (js ''410C1B56'')) 0 = Some MODE_01"
    "at (group_spec (js ''410C'')) 0 = Some MODE_01"
    "at (group_spec (js ''410D32'')) 0 = Some MODE_01"
    by (simp_all add: g1 g2 g3) (simp_all add: js_consts at_def)
  have pid: "echo_pids (at (group_spec (js ''410C1B56'')) 1) = Some ?info"
    "echo_pids (at (group_spec (js ''410C'')) 1) = Some ?info"
    "echo_pids (at (group_spec (js ''410D32'')) 1) = None"
    by (simp_all add: g1 g2 g3) (simp_all add: js_consts at_def echo_pids_def)
  from converter_slice [of "js ''410C1B56''" echo_pids ?info 1000] hex(1) mode(1) pid(1)
  have "parseObdString 1000 echo_pids (js ''410C1B56'') =
           Inr (case convertBytes ?info
                       (map ((!) (group_spec (js ''410C1B56'')))
                          [2..<min (byteCount ?info) (length (group_spec (js ''410C1B56'')))]) of
                  Inl e \<Rightarrow> \<lparr>ts = 1000, value = None, raw = js ''410C1B56'',
                             byteGroups = Some (group_spec (js ''410C1B56'')), error = Some (ConversionFailed e)\<rparr>
                | Inr v \<Rightarrow> \<lparr>ts = 1000, value = Some v, raw = js ''410C1B56'',
                             byteGroups = Some (group_spec (js ''410C1B56'')), error = None\<rparr>)"
    by blast
  then have r1: "parseObdString 1000 echo_pids (js ''410C1B56'') =
     Inr \<lparr>ts = 1000, value = Some [js ''1B''], raw = js ''410C1B56'',
          byteGroups = Some [js ''41'', js ''0C'', js ''1B'', js ''56''], error = None\<rparr>"
    by (simp add: g1 upt_rec_numeral)
  from converter_slice [of "js ''410C''" echo_pids ?info 1000] hex(2) mode(2) pid(2)
  have "parseObdString 1000 echo_pids (js ''410C'') =
           Inr (case convertBytes ?info
                       (map ((!) (group_spec (js ''410C'')))
                          [2..<min (byteCount ?info) (length (group_spec (js ''410C'')))]) of
                  Inl e \<Rightarrow> \<lparr>ts = 1000, value = None, raw = js ''410C'',
                             byteGroups = Some (group_spec (js ''410C'')), error = Some (ConversionFailed e)\<rparr>
                | Inr v \<Rightarrow> \<lparr>ts = 1000, value = Some v, raw = js ''410C'',
                             byteGroups = Some (group_spec (js ''410C'')), error = None\<rparr>)"
    by blast
  then have r2: "parseObdString 1000 echo_pids (js ''410C'') =
     Inr \<lparr>ts = 1000, value = Some [], raw = js ''410C'',
          byteGroups = Some [js ''41'', js ''0C''], error = None\<rparr>"
    by (simp add: g2)
  from converter_slice [of "js ''410D32''" echo_pids ?info 1000] hex(3) mode(3) pid(3)
  have "parseObdString 1000 echo_pids (js ''410D32'') =
           Inr \<lparr>ts = 1000, value = None, raw = js ''410D32'', byteGroups = Some (group_spec (js ''410D32'')),
                error = Some (NoConverter (at (group_spec (js ''410D32'')) 1))\<rparr>"
    by blast
  then have r3: "parseObdString 1000 echo_pids (js ''410D32'') =
     Inr \<lparr>ts = 1000, value = None, raw = js ''410D32'',
          byteGroups = Some [js ''41'', js ''0D'', js ''32''],
          error = Some (NoConverter (Some (js ''0D'')))\<rparr>"
    by (simp add: g3 at_def)
  from hex mode pid r1 r2 r3 show ?thesis
    by (simp only: simp_thms)
qed

subsection \<open>C7: the hexadecimal test\<close>

text \<open>
  C7: for every string s, \<open>isHex s\<close> holds if and only if s is non-empty and every
  character of s is one of \<open>0123456789ABCDEF\<close>; so a string with any other character
  is rejected.
\<close>

theorem isHex_upper_hex:
  "(isHex s \<longleftrightarrow> s \<noteq> [] \<and> set s \<subseteq> set (js ''0123456789ABCDEF'')) \<and>
   (c \<in> set s \<and> c \<notin> set (js ''0123456789ABCDEF'') \<longrightarrow> \<not> isHex s)"
  by (auto simp: isHex_iff hex_class_iff)

theorem isHex_upper_hex_witness:
  "isHex (js ''410C1B56'') \<and>
   of_char CHR ''b'' \<in> set (js ''1b56'') \<and> of_char CHR ''b'' \<notin> set (js ''0123456789ABCDEF'') \<and>
   \<not> isHex (js ''1b56'') \<and> \<not> isHex (js ''1B,56'') \<and> \<not> isHex (js '''') \<and> \<not> isHex (js ''1B56'' @ [LF])"
proof -
  have h1: "js ''410C1B56'' \<noteq> [] \<and> set (js ''410C1B56'') \<subseteq> set (js ''0123456789ABCDEF'')"
    by (simp add: js_def)
  have h2: "of_char CHR ''b'' \<in> set (js ''1b56'')" "of_char CHR ''b'' \<notin> set (js ''0123456789ABCDEF'')"
    by (simp_all add: js_def)
  have h3: "\<not> (js ''1B,56'' \<noteq> [] \<and> set (js ''1B,56'') \<subseteq> set (js ''0123456789ABCDEF''))"
    "\<not> (js '''' \<noteq> [] \<and> set (js '''') \<subseteq> set (js ''0123456789ABCDEF''))"
    "\<not> (js ''1B56'' @ [LF] \<noteq> [] \<and> set (js ''1B56'' @ [LF]) \<subseteq> set (js ''0123456789ABCDEF''))"
    by (simp_all add: js_def LF_def)
  from isHex_upper_hex [of "js ''410C1B56''"] h1 have r1: "isHex (js ''410C1B56'')" by blast
  from isHex_upper_hex [of "js ''1b56''" "of_char CHR ''b''"] h2 have r2: "\<not> isHex (js ''1b56'')" by blast
  from isHex_upper_hex [of "js ''1B,56''"] h3(1) have r3: "\<not> isHex (js ''1B,56'')" by blast
  from isHex_upper_hex [of "js ''''"] h3(2) have r4: "\<not> isHex (js '''')" by blast
  from isHex_upper_hex [of "js ''1B56'' @ [LF]"] h3(3) have r5: "\<not> isHex (js ''1B56'' @ [LF])" by blast
  from r1 r2 r3 r4 r5 h2 show ?thesis by blast
qed

subsection \<open>C8: the byte groups\<close>

text \<open>
  C8, as stated for every string, fails: \<open>getByteGroupings\<close> removes the spaces
  before it groups, its dot does not match a line terminator, and it returns null
  where nothing matched. \<open>1B 56\<close> gives \<open>1B\<close>, \<open>56\<close>, where the runs of two
  characters are \<open>1B\<close>, \<open> 5\<close>, \<open>6\<close>; a line feed between \<open>1B\<close> and \<open>56\<close> is
  skipped; the empty string gives null, not the empty sequence.
\<close>

theorem grouping_is_not_plain_split:
  "getByteGroupings (js ''1B 56'') = Some [js ''1B'', js ''56''] \<and>
   group_spec (js ''1B 56'') = [js ''1B'', js '' 5'', js ''6''] \<and>
   getByteGroupings (js ''1B 56'') \<noteq> Some (group_spec (js ''1B 56'')) \<and>
   getByteGroupings (js ''1B'' @ [LF] @ js ''56'') = Some [js ''1B'', js ''56''] \<and>
   getByteGroupings (js ''1B'' @ [LF] @ js ''56'') \<noteq> Some (group_spec (js ''1B'' @ [LF] @ js ''56'')) \<and>
   getByteGroupings [] = None \<and>
   getByteGroupings [] \<noteq> Some (group_spec [])"
  by (simp add: js_consts getByteGroupings_def line_terminator_def group_spec_Cons2 group_spec_single
      group_spec_Nil)

text \<open>
  C8 (amended): for every string s without line terminators that is not empty once
  its spaces are removed, \<open>getByteGroupings s\<close> splits s, with its spaces removed, into
  maximal runs of 2 characters taken left to right, with a final run of length 1 when
  the length is odd; in particular \<open>1B56\<close> gives \<open>1B\<close>, \<open>56\<close> and \<open>1B5\<close> gives
  \<open>1B\<close>, \<open>5\<close>.
\<close>

theorem grouping_runs:
  "(filter (\<lambda>c. c \<noteq> SP) s \<noteq> [] \<and> (\<forall>c\<in>set s. \<not> line_terminator c) \<longrightarrow>
      getByteGroupings s = Some (group_spec (filter (\<lambda>c. c \<noteq> SP) s))) \<and>
   getByteGroupings (js ''1B56'') = Some [js ''1B'', js ''56''] \<and>
   getByteGroupings (js ''1B5'') = Some [js ''1B'', js ''5'']"
proof (intro conjI impI)
  assume "filter (\<lambda>c. c \<noteq> SP) s \<noteq> [] \<and> (\<forall>c\<in>set s. \<not> line_terminator c)"
  then show "getByteGroupings s = Some (group_spec (filter (\<lambda>c. c \<noteq> SP) s))"
    by (intro groupings_plain) auto
qed (rule ex_group1, rule ex_group2)

theorem grouping_runs_witness:
  "filter (\<lambda>c. c \<noteq> SP) (js ''41 0C 1B 5'') \<noteq> [] \<and>
   list_all (\<lambda>c. \<not> line_terminator c) (js ''41 0C 1B 5'') \<and>
   group_spec (filter (\<lambda>c. c \<noteq> SP) (js ''41 0C 1B 5'')) = [js ''41'', js ''0C'', js ''1B'', js ''5''] \<and>
   getByteGroupings (js ''41 0C 1B 5'') = Some [js ''41'', js ''0C'', js ''1B'', js ''5'']"
proof -
  have f: "filter (\<lambda>c. c \<noteq> SP) (js ''41 0C 1B 5'') = js ''410C1B5''"
    by (simp add: js_def SP_def)
  have h1: "filter (\<lambda>c. c \<noteq> SP) (js ''41 0C 1B 5'') \<noteq> []"
    by (simp add: f) (simp add: js_def)
  have h2: "\<forall>c\<in>set (js ''41 0C 1B 5''). \<not> line_terminator c"
    by (simp add: js_def line_terminator_def)
  have g: "group_spec (filter (\<lambda>c. c \<noteq> SP) (js ''41 0C 1B 5'')) = [js ''41'', js ''0C'', js ''1B'', js ''5'']"
    by (simp add: f) (simp add: js_def group_spec_Cons2 group_spec_single)
  from grouping_runs [of "js ''41 0C 1B 5''"] h1 h2
  have "getByteGroupings (js ''41 0C 1B 5'') = Some (group_spec (filter (\<lambda>c. c \<noteq> SP) (js ''41 0C 1B 5'')))"
    by blast
  with g have "getByteGroupings (js ''41 0C 1B 5'') = Some [js ''41'', js ''0C'', js ''1B'', js ''5'']"
    by (simp only:)
  with g h1 h2 show ?thesis by (simp only: list_all_iff simp_thms)
qed

subsection \<open>C9: a second prompt in a segment\<close>

text \<open>
  C9: only the first prompt delimiter of a segment is stripped: the frame \<open>41>0C>\<close>
  gives the command string \<open>410C>\<close>, which still contains the prompt character.
\<close>

theorem only_first_prompt_stripped:
  "extractOutputStrings (js ''41>0C>'') = [js ''410C>''] \<and>
   OBD_OUTPUT_DELIMETER = [GT] \<and> GT \<in> set (js ''410C>'')"
  by (simp add: ex_two_prompts delimiter_is_prompt) (simp add: js_def GT_def)

subsection \<open>C10: the byte groups put together again\<close>

text \<open>
  C10, as stated for every non-empty string, fails: a line terminator is in no token
  (\<open>A\<close>, line feed, \<open>BC\<close> gives the tokens \<open>A\<close> and \<open>BC\<close>: the first token has
  length 1, and the concatenation lacks the line feed), and a non-empty string of
  spaces gives null.
\<close>

theorem grouping_skips_line_terminators:
  "getByteGroupings (js ''A'' @ [LF] @ js ''BC'') = Some [js ''A'', js ''BC''] \<and>
   concat [js ''A'', js ''BC''] \<noteq> js ''A'' @ [LF] @ js ''BC'' \<and>
   length (js ''A'') \<noteq> 2 \<and>
   js '' '' \<noteq> [] \<and>
   getByteGroupings (js '' '') = None"
  by (simp add: js_consts getByteGroupings_def line_terminator_def)

text \<open>
  C10 (amended): for every string s without line terminators that is not empty once
  its spaces are removed, \<open>getByteGroupings s\<close> returns tokens whose concatenation, in
  order, is s with its spaces removed; every token but the last has length 2, and the
  last has length 1 when the length of s without its spaces is odd and length 2
  otherwise; for the empty string the function returns null.
\<close>

theorem grouping_round_trip:
  "(filter (\<lambda>c. c \<noteq> SP) s \<noteq> [] \<and> (\<forall>c\<in>set s. \<not> line_terminator c) \<longrightarrow>
      (\<exists>gs. getByteGroupings s = Some gs \<and>
            concat gs = filter (\<lambda>c. c \<noteq> SP) s \<and>
            (\<forall>i. Suc i < length gs \<longrightarrow> length (gs ! i) = 2) \<and>
            length (last gs) = (if odd (length (filter (\<lambda>c. c \<noteq> SP) s)) then 1 else 2))) \<and>
   getByteGroupings [] = None"
proof (intro conjI impI)
  let ?t = "filter (\<lambda>c. c \<noteq> SP) s"
  assume a: "?t \<noteq> [] \<and> (\<forall>c\<in>set s. \<not> line_terminator c)"
  then have "getByteGroupings s = Some (group_spec ?t)"
    by (intro groupings_plain) auto
  moreover have "concat (group_spec ?t) = ?t"
    by (rule group_spec_concat)
  moreover have "\<forall>i. Suc i < length (group_spec ?t) \<longrightarrow> length (group_spec ?t ! i) = 2"
    by (simp add: group_spec_inner)
  moreover from a have "length (last (group_spec ?t)) = (if odd (length ?t) then 1 else 2)"
    by (intro group_spec_last) simp
  ultimately show "\<exists>gs. getByteGroupings s = Some gs \<and> concat gs = ?t \<and>
            (\<forall>i. Suc i < length gs \<longrightarrow> length (gs ! i) = 2) \<and>
            length (last gs) = (if odd (length ?t) then 1 else 2)"
    by blast
next
  show "getByteGroupings [] = None"
    by (simp add: getByteGroupings_def)
qed

theorem grouping_round_trip_witness:
  "filter (\<lambda>c. c \<noteq> SP) (js ''41 0C 1B 5'') \<noteq> [] \<and>
   list_all (\<lambda>c. \<not> line_terminator c) (js ''41 0C 1B 5'') \<and>
   (\<exists>gs. getByteGroupings (js ''41 0C 1B 5'') = Some gs \<and>
         concat gs = js ''410C1B5'' \<and> length (last gs) = 1)"
proof -
  have f: "filter (\<lambda>c. c \<noteq> SP) (js ''41 0C 1B 5'') = js ''410C1B5''"
    by (simp add: js_def SP_def)
  have h1: "filter (\<lambda>c. c \<noteq> SP) (js ''41 0C 1B 5'') \<noteq> []"
    by (simp add: f) (simp add: js_def)
  have h2: "\<forall>c\<in>set (js ''41 0C 1B 5''). \<not> line_terminator c"
    by (simp add: js_def line_terminator_def)
  have o: "odd (length (filter (\<lambda>c. c \<noteq> SP) (js ''41 0C 1B 5'')))"
    by (simp add: f) (simp add: js_def)
  from grouping_round_trip [of "js ''41 0C 1B 5''"] h1 h2
  obtain gs where "getByteGroupings (js ''41 0C 1B 5'') = Some gs"
    "concat gs = filter (\<lambda>c. c \<noteq> SP) (js ''41 0C 1B 5'')"
    "length (last gs) = (if odd (length (filter (\<lambda>c. c \<noteq> SP) (js ''41 0C 1B 5''))) then 1 else 2)"
    by blast
  with o f have "getByteGroupings (js ''41 0C 1B 5'') = Some gs \<and> concat gs = js ''410C1B5'' \<and>
      length (last gs) = 1"
    by simp
  with h1 h2 show ?thesis unfolding list_all_iff by blast
qed

end
